theory Spec2Isabelle
  imports Main
begin

section \<open>Locks: a wrapper around the host's lock manager\<close>

text \<open>
  The class \<open>Locks\<close> of \<open>src/index.ts\<close> keeps two private members: the host's lock
  manager and a side table from lock handles to wake actions.  Its operations are
  \<open>request\<close>, \<open>release\<close>, \<open>query\<close>, \<open>find\<close>, \<open>list\<close> and \<open>status\<close>.  The
  introspection operations are pure functions of the snapshot that the manager's
  \<open>query()\<close> returns; they come first.
\<close>

subsection \<open>Snapshots\<close>

datatype mode = shared | exclusive

text \<open>A \<open>LockInfo\<close> entry of a snapshot.\<close>

record lock_info =
  name :: string
  mode :: mode
  clientId :: string

text \<open>
  The result of the manager's \<open>query()\<close>.  The source reads both lists through optional
  chaining (\<open>held?.some\<close>, \<open>if (held)\<close>), so each list may be missing: \<open>None\<close> is
  \<open>undefined\<close>.
\<close>

record snapshot =
  held :: "lock_info list option"
  pending :: "lock_info list option"

subsection \<open>\<open>find\<close>\<close>

text \<open>
  \<open>xs?.some(lock => lock.name === n)\<close>: \<open>undefined\<close> when the list is missing,
  otherwise a boolean.
\<close>

definition some_named :: "string \<Rightarrow> lock_info list option \<Rightarrow> bool option" where
  "some_named n xs = map_option (list_ex (\<lambda>lock. name lock = n)) xs"

text \<open>
  \<open>a || b\<close> on values that are \<open>true\<close>, \<open>false\<close> or \<open>undefined\<close>: the left operand
  when it is truthy, the right operand otherwise.
\<close>

definition js_or :: "bool option \<Rightarrow> bool option \<Rightarrow> bool option" where
  "js_or a b = (if a = Some True then a else b)"

text \<open>
  \<open>find(name)\<close>, lines 93 to 97.  The value is what the returned promise resolves to:
  \<open>Some True\<close>, \<open>Some False\<close>, or \<open>None\<close> for \<open>undefined\<close>.
\<close>

definition find_lock :: "string \<Rightarrow> snapshot \<Rightarrow> bool option" where
  "find_lock n all = js_or (some_named n (held all)) (some_named n (pending all))"

text \<open>
  \<open>list()\<close>, lines 102 to 104, returns the manager's snapshot as it is; \<open>find\<close> reads
  the same snapshot at line 94.
\<close>

definition list_locks :: "snapshot \<Rightarrow> snapshot" where
  "list_locks all = all"

text \<open>Whether a name occurs in one list of a snapshot (a missing list has no entry).\<close>

definition appears :: "string \<Rightarrow> lock_info list option \<Rightarrow> bool" where
  "appears n xs = (case xs of None \<Rightarrow> False | Some ys \<Rightarrow> list_ex (\<lambda>lock. name lock = n) ys)"

subsection \<open>\<open>status\<close>\<close>

text \<open>
  A lock handle as the manager hands it out: an object with a name and a mode.  Handles
  are compared by identity (they are keys of a \<open>WeakMap\<close>), which \<open>lock_id\<close> stands for.
\<close>

record lock =
  lock_id :: nat
  lock_name :: string
  lock_mode :: mode

text \<open>
  The argument of \<open>status\<close>: a string, a handle, or \<open>null\<close>/\<open>undefined\<close> (the source
  reads the handle's name through \<open>name?.name\<close>).
\<close>

datatype status_arg = Name string | Handle lock | Nullish

text \<open>\<open>typeof name === 'string' ? name : name?.name\<close>\<close>

fun innerName :: "status_arg \<Rightarrow> string option" where
  "innerName (Name s) = Some s"
| "innerName (Handle l) = Some (lock_name l)"
| "innerName Nullish = None"

text \<open>
  One \<open>for ... of\<close> loop of lines 122 and 124: the variable starts \<open>undefined\<close> and is
  overwritten by every entry whose name matches.
\<close>

fun scan :: "string \<Rightarrow> lock_info option \<Rightarrow> lock_info list \<Rightarrow> lock_info option" where
  "scan n acc [] = acc"
| "scan n acc (lock # rest) = scan n (if name lock = n then Some lock else acc) rest"

text \<open>\<open>if (xs) for (const lock of xs) ...\<close>\<close>

definition scan_opt :: "string \<Rightarrow> lock_info list option \<Rightarrow> lock_info option" where
  "scan_opt n xs = (case xs of None \<Rightarrow> None | Some ys \<Rightarrow> scan n None ys)"

text \<open>
  The object built at lines 128 to 132: the two booleans, then the fields of the entry
  spread into it (an entry has no field called \<open>held\<close> or \<open>pending\<close>, so the spread
  overwrites neither).  The entry's fields are kept together as \<open>info\<close>.
\<close>

record lock_status =
  is_held :: bool
  is_pending :: bool
  info :: lock_info

text \<open>\<open>heldLock ?? pendingLock\<close>\<close>

definition nullish_or :: "'a option \<Rightarrow> 'a option \<Rightarrow> 'a option" where
  "nullish_or a b = (case a of Some x \<Rightarrow> Some x | None \<Rightarrow> b)"

text \<open>
  \<open>status(name)\<close>, lines 110 to 136.  \<open>None\<close> is \<open>undefined\<close>: the early \<open>return\<close> of line
  126, and the unassigned \<open>queryRes\<close> returned when the guard \<open>if (innerName)\<close> fails,
  which it does for a missing name and for the empty string.
\<close>

definition status :: "status_arg \<Rightarrow> snapshot \<Rightarrow> lock_status option" where
  "status arg all =
     (case innerName arg of
        None \<Rightarrow> None
      | Some n \<Rightarrow>
          if n = [] then None
          else
            let heldLock = scan_opt n (held all);
                pendingLock = scan_opt n (pending all)
            in case nullish_or heldLock pendingLock of
                 None \<Rightarrow> None
               | Some entry \<Rightarrow>
                   Some \<lparr> is_held = (heldLock \<noteq> None),
                          is_pending = (pendingLock \<noteq> None),
                          info = entry \<rparr>)"

text \<open>The entries of a list that carry a given name, in the list's order.\<close>

definition matching :: "string \<Rightarrow> lock_info list option \<Rightarrow> lock_info list" where
  "matching n xs = (case xs of None \<Rightarrow> [] | Some ys \<Rightarrow> filter (\<lambda>lock. name lock = n) ys)"

subsection \<open>Options of \<open>request\<close> and the timeout source\<close>

text \<open>
  An \<open>AbortSignal\<close> is either still quiet or aborted with a reason.  The values that
  travel as abort reasons and as rejection reasons are:
  an object with a \<open>name\<close> property (a \<open>DOMException\<close> or an \<open>Error\<close>), the \<open>Event\<close>
  object that an \<open>abort\<close> listener receives (it has a \<open>type\<close> but no \<open>name\<close>), any
  other object, \<open>null\<close>, and \<open>undefined\<close>.
\<close>

datatype jsval = Named string | AbortEvent | Plain | Null | Undefined

type_synonym abort_signal = "jsval option"

record lock_options =
  opt_mode :: "mode option"
  ifAvailable :: "bool option"
  steal :: "bool option"
  signal :: "abort_signal option"
  timeout :: "int option"

text \<open>The default value of the parameter \<open>opt\<close>, line 28: \<open>{ timeout: 1e4 }\<close>.\<close>

definition default_opt :: lock_options where
  "default_opt = \<lparr> opt_mode = None, ifAvailable = None, steal = None, signal = None,
                   timeout = Some 10000 \<rparr>"

definition effective_opt :: "lock_options option \<Rightarrow> lock_options" where
  "effective_opt given = (case given of None \<Rightarrow> default_opt | Some opt \<Rightarrow> opt)"

text \<open>\<open>const { timeout = 1e4 } = opt\<close>, line 37.\<close>

definition effective_timeout :: "lock_options \<Rightarrow> int" where
  "effective_timeout opt = (case timeout opt of None \<Rightarrow> 10000 | Some t \<Rightarrow> t)"

text \<open>
  Line 38: \<open>timeout && !steal ? AbortSignal.timeout(timeout) : void 0\<close>.  The result is
  the delay that \<open>AbortSignal.timeout\<close> is called with, or \<open>None\<close> when it is not called.
  The delay is a whole number of milliseconds; it is truthy when it is not zero, and
  \<open>!steal\<close> holds when \<open>steal\<close> is \<open>false\<close> or missing.
\<close>

definition timeoutSignal :: "lock_options \<Rightarrow> int option" where
  "timeoutSignal opt =
     (if effective_timeout opt \<noteq> 0 \<and> steal opt \<noteq> Some True
      then Some (effective_timeout opt) else None)"

subsection \<open>Host contract: promises and abort signals\<close>

text \<open>
  A promise settles once: \<open>resolve\<close> and \<open>reject\<close> act on a pending promise and leave a
  settled one as it is.
\<close>

datatype 'a promise = Pending | Fulfilled 'a | Rejected jsval

definition resolve :: "'a \<Rightarrow> 'a promise \<Rightarrow> 'a promise" where
  "resolve v p = (case p of Pending \<Rightarrow> Fulfilled v | _ \<Rightarrow> p)"

definition reject :: "jsval \<Rightarrow> 'a promise \<Rightarrow> 'a promise" where
  "reject err p = (case p of Pending \<Rightarrow> Rejected err | _ \<Rightarrow> p)"

text \<open>
  \<open>AbortController.abort(reason)\<close>: nothing happens on an aborted signal; otherwise the
  signal's reason becomes \<open>reason\<close>, or a \<open>DOMException\<close> named \<open>AbortError\<close> when the
  argument is \<open>undefined\<close> or left out.
\<close>

definition abort :: "jsval \<Rightarrow> abort_signal \<Rightarrow> abort_signal" where
  "abort reason sig =
     (case sig of
        Some r \<Rightarrow> Some r
      | None \<Rightarrow> Some (if reason = Undefined then Named ''AbortError'' else reason))"

text \<open>\<open>err.name\<close> of a value that is neither \<open>null\<close> nor \<open>undefined\<close>.\<close>

fun name_of :: "jsval \<Rightarrow> string option" where
  "name_of (Named n) = Some n"
| "name_of v = None"

subsection \<open>One call of \<open>request\<close>\<close>

text \<open>
  What the manager knows of the request: it never queued it (the call was refused, or
  never made), the request waits, the grant continuation runs with a handle (or with
  \<open>null\<close>, the answer to \<open>ifAvailable\<close> when the lock is taken), the waiting request was
  aborted, the lock was taken away by a stealing request, or the continuation has
  completed and the lock is released.
\<close>

datatype phase = Refused | Queued | Granted "lock option" | Aborted | Stolen | Finished

text \<open>
  The state that one call of \<open>request\<close> creates and that its closures share:
  \<^item> \<open>future\<close>: the promise the caller holds (\<open>waitLock\<close>, returned at line 70);
  \<^item> \<open>caller_signal\<close>: \<open>opt.signal\<close>, when given;
  \<^item> \<open>timeout_signal\<close>: \<open>timeoutSignal\<close>, when created;
  \<^item> \<open>inner_ctrl\<close>: the signal of \<open>innerSigbalCtrl\<close>, created when \<open>opt.signal\<close> is given;
  \<^item> \<open>has_callback\<close>: whether \<open>callback\<close> was passed;
  \<^item> \<open>calls\<close>: the arguments \<open>callback\<close> has been invoked with, in order;
  \<^item> \<open>waitDone\<close>: the promise of line 60, once created;
  \<^item> \<open>warnings\<close>: how often line 66 has written to the console.
\<close>

record session =
  future :: "lock option promise"
  phase :: phase
  caller_signal :: "abort_signal option"
  timeout_signal :: "abort_signal option"
  inner_ctrl :: "abort_signal option"
  has_callback :: bool
  calls :: "lock option list"
  waitDone :: "unit promise option"
  warnings :: nat

text \<open>
  The signal handed to the manager, lines 40 to 52: the inner controller's signal when
  the caller gave a signal, the timeout signal otherwise.
\<close>

definition passed_signal :: "session \<Rightarrow> abort_signal option" where
  "passed_signal s = (case inner_ctrl s of Some g \<Rightarrow> Some g | None \<Rightarrow> timeout_signal s)"

text \<open>
  The handler of lines 65 to 68.  Reading \<open>err.name\<close> of \<open>null\<close> or \<open>undefined\<close> throws,
  and then neither the warning nor \<open>rejectorLock\<close> runs.
\<close>

definition catch_handler :: "jsval \<Rightarrow> session \<Rightarrow> session" where
  "catch_handler err s =
     (if err = Null \<or> err = Undefined then s
      else s \<lparr> future := reject err (future s),
               warnings := (if name_of err = Some ''TimeoutError''
                            then Suc (warnings s) else warnings s) \<rparr>)"

text \<open>
  Host contract, \<open>AbortSignal.timeout(ms)\<close>: the argument is an unsigned integer of at
  most 53 bits, anything else is a \<open>TypeError\<close>.
\<close>

definition timeout_in_range :: "int \<Rightarrow> bool" where
  "timeout_in_range ms = (0 \<le> ms \<and> ms \<le> 2 ^ 53 - 1)"

text \<open>
  Host contract, the checks of \<open>LockManager.request\<close> before a request is queued.  The
  call is answered with a rejected promise when the name starts with a hyphen, when
  \<open>steal\<close> and \<open>ifAvailable\<close> are both set, when \<open>steal\<close> comes with a mode other than
  exclusive, when a signal comes with \<open>steal\<close> or \<open>ifAvailable\<close> (all four a
  \<open>NotSupportedError\<close>), and when the signal is already aborted (its reason).
\<close>

definition refusal :: "string \<Rightarrow> lock_options \<Rightarrow> abort_signal option \<Rightarrow> jsval option" where
  "refusal nm opt sig =
     (if take 1 nm = ''-'' then Some (Named ''NotSupportedError'')
      else if steal opt = Some True \<and> ifAvailable opt = Some True
        then Some (Named ''NotSupportedError'')
      else if steal opt = Some True \<and> opt_mode opt = Some shared
        then Some (Named ''NotSupportedError'')
      else if sig \<noteq> None \<and> (steal opt = Some True \<or> ifAvailable opt = Some True)
        then Some (Named ''NotSupportedError'')
      else case sig of Some (Some reason) \<Rightarrow> Some reason | _ \<Rightarrow> None)"

text \<open>
  The synchronous part of \<open>request\<close>, lines 31 to 70, up to the answer of the manager.
  \<open>nm\<close> is the name (the caller's or the generated one), \<open>given\<close> the options when
  passed, \<open>cb\<close> whether a callback was passed.  When \<open>AbortSignal.timeout\<close> throws, the
  function's own promise is rejected and the manager is never called.
\<close>

definition start :: "string \<Rightarrow> lock_options option \<Rightarrow> bool \<Rightarrow> session" where
  "start nm given cb =
     (let opt = effective_opt given;
          s0 = \<lparr> future = Pending, phase = Refused,
                 caller_signal = signal opt, timeout_signal = None, inner_ctrl = None,
                 has_callback = cb, calls = [], waitDone = None, warnings = 0 \<rparr>
      in if (case timeoutSignal opt of Some ms \<Rightarrow> \<not> timeout_in_range ms | None \<Rightarrow> False)
         then s0 \<lparr> future := Rejected (Named ''TypeError'') \<rparr>
         else
           (let s1 = s0 \<lparr> timeout_signal := map_option (\<lambda>ms. None) (timeoutSignal opt),
                           inner_ctrl := (if signal opt \<noteq> None then Some None else None) \<rparr>
            in case refusal nm opt (passed_signal s1) of
                 Some err \<Rightarrow> catch_handler err s1
               | None \<Rightarrow> s1 \<lparr> phase := Queued \<rparr>))"

text \<open>
  What reaches a call of \<open>request\<close> afterwards: the caller's signal fires (with the
  reason given to its controller), the timeout elapses, the manager grants the lock
  (or answers \<open>null\<close>), the callback's completion settles (\<open>None\<close> for success,
  \<open>Some err\<close> for a throw or a rejection), the wake action \<open>done\<close> is invoked, another
  request for the same name steals the lock.
\<close>

datatype event =
  CallerAbort jsval | TimeoutElapsed | Grant "lock option" | Settled "jsval option" | Done
  | Steal

text \<open>
  Host contract: a queued request whose signal is aborted leaves the queue, and the
  manager's promise is rejected with the signal's reason, which line 65 catches.
\<close>

definition manager_on_abort :: "session \<Rightarrow> session" where
  "manager_on_abort s =
     (if phase s = Queued
      then (case passed_signal s of
              Some (Some reason) \<Rightarrow> catch_handler reason (s \<lparr> phase := Aborted \<rparr>)
            | _ \<Rightarrow> s)
      else s)"

text \<open>
  The listener of lines 43 to 45 calls \<open>innerSigbalCtrl.abort()\<close> without an argument;
  the listener of lines 47 to 49 passes on its own argument, which is the \<open>abort\<close> event
  it is called with.  A signal fires its listeners once, when it becomes aborted.
\<close>

definition on_caller_abort :: "jsval \<Rightarrow> session \<Rightarrow> session" where
  "on_caller_abort reason s =
     (case caller_signal s of
        Some None \<Rightarrow>
          manager_on_abort
            (s \<lparr> caller_signal := Some (abort reason None),
                 inner_ctrl := map_option (abort Undefined) (inner_ctrl s) \<rparr>)
      | _ \<Rightarrow> s)"

definition on_timeout :: "session \<Rightarrow> session" where
  "on_timeout s =
     (case timeout_signal s of
        Some None \<Rightarrow>
          manager_on_abort
            (s \<lparr> timeout_signal := Some (Some (Named ''TimeoutError'')),
                 inner_ctrl := map_option (abort AbortEvent) (inner_ctrl s) \<rparr>)
      | _ \<Rightarrow> s)"

text \<open>
  The grant continuation, lines 55 to 64, up to its first suspension: \<open>getLock(lock)\<close>,
  then either the callback is called and awaited, or \<open>waitDone\<close> is created and awaited.
  (The entry in \<open>lockMap\<close> is made by \<open>grant\<close> below, which owns the table.)
\<close>

definition on_grant :: "lock option \<Rightarrow> session \<Rightarrow> session" where
  "on_grant l s =
     (if phase s = Queued
      then (let s1 = s \<lparr> phase := Granted l, future := resolve l (future s) \<rparr>
            in if has_callback s then s1 \<lparr> calls := calls s1 @ [l] \<rparr>
               else s1 \<lparr> waitDone := Some Pending \<rparr>)
      else s)"

text \<open>
  The awaited callback settles: the continuation returns or throws, the manager
  releases the lock and settles its own promise alike; a rejection reaches line 65.
\<close>

definition on_settled :: "jsval option \<Rightarrow> session \<Rightarrow> session" where
  "on_settled outcome s =
     (case phase s of
        Granted l \<Rightarrow>
          if has_callback s
          then (case outcome of
                  None \<Rightarrow> s \<lparr> phase := Finished \<rparr>
                | Some err \<Rightarrow> catch_handler err (s \<lparr> phase := Finished \<rparr>))
          else s
      | _ \<Rightarrow> s)"

text \<open>
  \<open>done()\<close>: resolving \<open>waitDone\<close> lets the continuation return, and the manager releases
  the lock if the call still has it.  On a resolved \<open>waitDone\<close> nothing happens.
\<close>

definition on_done :: "session \<Rightarrow> session" where
  "on_done s =
     (case waitDone s of
        Some Pending \<Rightarrow>
          s \<lparr> waitDone := Some (Fulfilled ()),
              phase := (case phase s of Granted l \<Rightarrow> Finished | p \<Rightarrow> p) \<rparr>
      | _ \<Rightarrow> s)"

text \<open>
  Host contract: a request with \<open>steal\<close> takes the lock from its holder.  The manager's
  promise for the holder is rejected with an \<open>AbortError\<close>, which line 65 catches; the
  holder's continuation is not interrupted.
\<close>

definition on_steal :: "session \<Rightarrow> session" where
  "on_steal s =
     (case phase s of
        Granted (Some l) \<Rightarrow> catch_handler (Named ''AbortError'') (s \<lparr> phase := Stolen \<rparr>)
      | _ \<Rightarrow> s)"

fun step :: "event \<Rightarrow> session \<Rightarrow> session" where
  "step (CallerAbort reason) s = on_caller_abort reason s"
| "step TimeoutElapsed s = on_timeout s"
| "step (Grant l) s = on_grant l s"
| "step (Settled outcome) s = on_settled outcome s"
| "step Done s = on_done s"
| "step Steal s = on_steal s"

fun run :: "event list \<Rightarrow> session \<Rightarrow> session" where
  "run [] s = s"
| "run (e # es) s = run es (step e s)"

fun is_settled :: "event \<Rightarrow> bool" where
  "is_settled (Settled outcome) = True"
| "is_settled e = False"

text \<open>The lock that a call holds, if any.\<close>

definition held_by :: "session \<Rightarrow> lock option" where
  "held_by s = (case phase s of Granted l \<Rightarrow> l | _ \<Rightarrow> None)"

subsection \<open>Invariants of a call\<close>

text \<open>
  While the request waits in the manager's queue, the future is pending, the callback
  has not been called and \<open>waitDone\<close> does not exist; \<open>waitDone\<close> never exists in a call
  with a callback.
\<close>

definition waiting_inv :: "session \<Rightarrow> bool" where
  "waiting_inv s =
     ((phase s = Queued \<longrightarrow> future s = Pending \<and> calls s = [] \<and> waitDone s = None)
      \<and> (has_callback s \<longrightarrow> waitDone s = None))"

text \<open>
  A call with a callback whose continuation runs: the handle is in the future, the
  callback has been called once, with the handle, and \<open>waitDone\<close> does not exist.  The
  second predicate leaves open whether the call still has the lock or has lost it to a
  stealing request.
\<close>

definition in_callback :: "lock option \<Rightarrow> session \<Rightarrow> bool" where
  "in_callback l s =
     (has_callback s \<and> phase s = Granted l \<and> future s = Fulfilled l \<and> calls s = [l]
      \<and> waitDone s = None)"

definition callback_running :: "lock option \<Rightarrow> session \<Rightarrow> bool" where
  "callback_running l s =
     (has_callback s \<and> (phase s = Granted l \<or> phase s = Stolen) \<and> future s = Fulfilled l
      \<and> calls s = [l] \<and> waitDone s = None)"

subsection \<open>The class: \<open>lockMap\<close>, \<open>request\<close> and \<open>release\<close>\<close>

text \<open>
  The static state of the class: \<open>lockMap\<close>, from handles to wake actions, and the calls
  of \<open>request\<close> made so far.  A wake action is the \<open>done\<close> of one call, so the table
  stores the position of that call.
\<close>

record broker =
  lockMap :: "lock \<rightharpoonup> nat"
  sessions :: "session list"

definition request :: "string \<Rightarrow> lock_options option \<Rightarrow> bool \<Rightarrow> broker \<Rightarrow> broker" where
  "request nm given cb b = b \<lparr> sessions := sessions b @ [start nm given cb] \<rparr>"

text \<open>
  The manager runs the grant continuation of call \<open>i\<close>.  Line 62 enters the handle in
  \<open>lockMap\<close> when no callback was passed and the handle is not \<open>null\<close>.
\<close>

definition grant :: "nat \<Rightarrow> lock option \<Rightarrow> broker \<Rightarrow> broker" where
  "grant i l b =
     (if i < length (sessions b)
      then (let s = sessions b ! i
            in b \<lparr> sessions := (sessions b)[i := on_grant l s],
                   lockMap := (case l of
                                 Some h \<Rightarrow> if phase s = Queued \<and> \<not> has_callback s
                                           then (lockMap b)(h \<mapsto> i) else lockMap b
                               | None \<Rightarrow> lockMap b) \<rparr>)
      else b)"

text \<open>
  \<open>release(lock)\<close>, line 78: \<open>this.#lockMap.get(lock)?.()\<close>.  The argument \<open>None\<close> is
  \<open>null\<close>, for which \<open>get\<close> answers \<open>undefined\<close> as it does for any key without an entry.
  The entry is never removed from the table.
\<close>

definition release :: "lock option \<Rightarrow> broker \<Rightarrow> broker" where
  "release h b =
     (case h of
        None \<Rightarrow> b
      | Some l \<Rightarrow>
          (case lockMap b l of
             None \<Rightarrow> b
           | Some i \<Rightarrow> b \<lparr> sessions := (sessions b)[i := on_done (sessions b ! i)] \<rparr>))"

text \<open>Whether call \<open>i\<close> holds the lock behind handle \<open>l\<close>.\<close>

definition holds :: "broker \<Rightarrow> nat \<Rightarrow> lock \<Rightarrow> bool" where
  "holds b i l = (i < length (sessions b) \<and> held_by (sessions b ! i) = Some l)"

subsection \<open>The lock table\<close>

text \<open>
  Modelled from the spec: the lock table of section 4.1, which grants, queues and
  releases.  The repository has no code for it: line 5 of \<open>src/index.ts\<close> takes it from
  the host (\<open>navigator.locks\<close>).  The definitions below follow the words of the spec.

  A request carries its mode and its two flags; its name is the key of the table and
  its place in the queue is its arrival order.  An entry of the table has the holders,
  each with mode and request id, and the waiters.
\<close>

record lock_request =
  req_id :: nat
  req_mode :: mode
  req_ifAvailable :: bool
  req_steal :: bool

record table_entry =
  holders :: "(mode \<times> nat) list"
  waiters :: "lock_request list"

text \<open>
  Modelled from the spec: compatibility of a mode with the holders, section 4.1 and
  the glossary.  A mode is compatible with a holder set when there is no holder, or
  when the mode is shared and every holder is shared.
\<close>

definition compatible :: "mode \<Rightarrow> (mode \<times> nat) list \<Rightarrow> bool" where
  "compatible m hs = (hs = [] \<or> (m = shared \<and> list_all (\<lambda>h. fst h = shared) hs))"

text \<open>
  Modelled from the spec: the scan after a release, section 4.1: "waiters are scanned
  head-to-tail, granting every waiter whose mode is compatible with the now-current
  holder set, stopping at the first incompatible waiter".
\<close>

fun admit :: "(mode \<times> nat) list \<Rightarrow> lock_request list \<Rightarrow> table_entry" where
  "admit hs [] = \<lparr> holders = hs, waiters = [] \<rparr>"
| "admit hs (w # ws) =
     (if compatible (req_mode w) hs then admit (hs @ [(req_mode w, req_id w)]) ws
      else \<lparr> holders = hs, waiters = w # ws \<rparr>)"

text \<open>
  Modelled from the spec: \<open>tryGrant\<close> of section 4.1.  A stealing request evicts every
  holder and is granted in the same transition (the evictions are releases, so the
  scan follows, with the new holder in place); otherwise the request is granted when
  the entry is empty, or when it is shared, the holders are shared and nobody waits;
  otherwise it is dropped when \<open>ifAvailable\<close> is set (the caller gets the null handle),
  and queued when not.
\<close>

definition tryGrant :: "lock_request \<Rightarrow> table_entry \<Rightarrow> table_entry" where
  "tryGrant r e =
     (if req_steal r then admit [(req_mode r, req_id r)] (waiters e)
      else if holders e = [] then e \<lparr> holders := [(req_mode r, req_id r)] \<rparr>
      else if list_all (\<lambda>h. fst h = shared) (holders e) \<and> req_mode r = shared
              \<and> waiters e = []
        then e \<lparr> holders := holders e @ [(req_mode r, req_id r)] \<rparr>
      else if req_ifAvailable r then e
      else e \<lparr> waiters := waiters e @ [r] \<rparr>)"

text \<open>
  Modelled from the spec: release, section 4.1: "On release of a holder: entry drops
  that holder; then waiters are scanned."  Releasing what is not a holder changes
  nothing.
\<close>

definition release_holder :: "nat \<Rightarrow> table_entry \<Rightarrow> table_entry" where
  "release_holder i e =
     (if list_ex (\<lambda>h. snd h = i) (holders e)
      then admit (filter (\<lambda>h. snd h \<noteq> i) (holders e)) (waiters e)
      else e)"

text \<open>
  Modelled from the spec: cancellation, section 4.1: "Cancellation of a still-pending
  request: request is removed from the waiters queue."
\<close>

definition cancel :: "nat \<Rightarrow> table_entry \<Rightarrow> table_entry" where
  "cancel i e = e \<lparr> waiters := filter (\<lambda>w. req_id w \<noteq> i) (waiters e) \<rparr>"

text \<open>
  Modelled from the spec: the table, section 3: one entry per name, created on first
  use, so a name never used has the empty entry; and the operations that reach it.
\<close>

type_synonym lock_table = "string \<Rightarrow> table_entry"

definition empty_table :: lock_table where
  "empty_table = (\<lambda>n. \<lparr> holders = [], waiters = [] \<rparr>)"

datatype table_op = TryGrant string lock_request | ReleaseHolder string nat | Cancel string nat

fun apply_op :: "table_op \<Rightarrow> lock_table \<Rightarrow> lock_table" where
  "apply_op (TryGrant n r) t = t (n := tryGrant r (t n))"
| "apply_op (ReleaseHolder n i) t = t (n := release_holder i (t n))"
| "apply_op (Cancel n i) t = t (n := cancel i (t n))"

text \<open>
  Modelled from the spec: the reachable states, as the table after a sequence of
  operations, the first of the list applied first.
\<close>

fun run_table :: "table_op list \<Rightarrow> lock_table \<Rightarrow> lock_table" where
  "run_table [] t = t"
| "run_table (x # xs) t = run_table xs (apply_op x t)"

text \<open>
  Modelled from the spec: the invariant in the words of section 3: "if holders is
  non-empty with an exclusive holder, its length is exactly 1; if holders contains
  shared holders, all holders are shared".
\<close>

definition holders_ok :: "(mode \<times> nat) list \<Rightarrow> bool" where
  "holders_ok hs =
     ((list_ex (\<lambda>h. fst h = exclusive) hs \<longrightarrow> length hs = 1) \<and>
      (list_ex (\<lambda>h. fst h = shared) hs \<longrightarrow> list_all (\<lambda>h. fst h = shared) hs))"

section \<open>Properties of the introspection operations\<close>

lemma scan_append:
  "scan n acc (xs @ [x]) = (if name x = n then Some x else scan n acc xs)"
  by (induction xs arbitrary: acc) simp_all

lemma scan_last:
  "scan n None xs =
     (if filter (\<lambda>lock. name lock = n) xs = [] then None
      else Some (last (filter (\<lambda>lock. name lock = n) xs)))"
proof (induction xs rule: rev_induct)
  case Nil
  show ?case by simp
next
  case (snoc x xs)
  show ?case
    using snoc.IH by (simp add: scan_append)
qed

lemma scan_opt_last:
  "scan_opt n xs = (if matching n xs = [] then None else Some (last (matching n xs)))"
  by (cases xs) (simp_all add: scan_opt_def matching_def scan_last)

lemma matching_appears: "matching n xs \<noteq> [] \<longleftrightarrow> appears n xs"
  by (cases xs) (auto simp: matching_def appears_def list_ex_iff filter_empty_conv)

lemma find_lock_true_iff:
  "find_lock n all = Some True \<longleftrightarrow> appears n (held all) \<or> appears n (pending all)"
  by (cases "held all"; cases "pending all")
     (auto simp: find_lock_def js_or_def some_named_def appears_def)

lemma find_lock_with_pending:
  "pending all \<noteq> None \<Longrightarrow>
   find_lock n all = Some (appears n (held all) \<or> appears n (pending all))"
  by (cases "held all"; cases "pending all")
     (auto simp: find_lock_def js_or_def some_named_def appears_def)

text \<open>
  On a snapshot without a pending list, and with a held list that does not contain the
  name, the right operand of \<open>||\<close> is \<open>undefined\<close> and so is the answer.  The manager's
  \<open>query()\<close> fills in both lists of every snapshot, so \<open>find\<close> never meets this input.
\<close>

lemma find_lock_without_pending:
  "find_lock ''db'' \<lparr> held = Some [], pending = None \<rparr> = None"
  by (simp add: find_lock_def js_or_def some_named_def)

lemma find_lock_undefined_only_without_pending:
  "find_lock n all = None \<Longrightarrow> pending all = None"
  by (cases "held all"; cases "pending all")
     (auto simp: find_lock_def js_or_def some_named_def split: if_splits)

text \<open>
  C6.  \<open>find(name)\<close> and \<open>list()\<close> read the same snapshot of the manager.  For every
  name, \<open>find\<close> answers \<open>true\<close> exactly when the name is in the held list or in the
  pending list that \<open>list()\<close> reports; and on every snapshot that has its pending list,
  as every snapshot of the manager has, the answer is a boolean: \<open>true\<close> in that case
  and \<open>false\<close> otherwise.
\<close>

theorem find_reports_presence:
  "(find_lock n all = Some True \<longleftrightarrow>
      appears n (held (list_locks all)) \<or> appears n (pending (list_locks all)))
   \<and> (pending all \<noteq> None \<longrightarrow>
        find_lock n all
          = Some (appears n (held (list_locks all)) \<or> appears n (pending (list_locks all))))"
  using find_lock_true_iff [of n all] find_lock_with_pending [of all n]
  by (simp add: list_locks_def)

theorem find_reports_presence_witness:
  "find_lock ''db''
     \<lparr> held = Some [\<lparr> name = ''log'', mode = shared, clientId = ''c1'' \<rparr>,
                    \<lparr> name = ''db'', mode = shared, clientId = ''c2'' \<rparr>],
       pending = Some [\<lparr> name = ''cache'', mode = exclusive, clientId = ''c3'' \<rparr>] \<rparr>
     = Some True
   \<and> find_lock ''cache''
       \<lparr> held = Some [\<lparr> name = ''log'', mode = shared, clientId = ''c1'' \<rparr>,
                      \<lparr> name = ''db'', mode = shared, clientId = ''c2'' \<rparr>],
         pending = Some [\<lparr> name = ''cache'', mode = exclusive, clientId = ''c3'' \<rparr>] \<rparr>
     = Some True
   \<and> find_lock ''queue''
       \<lparr> held = Some [\<lparr> name = ''log'', mode = shared, clientId = ''c1'' \<rparr>,
                      \<lparr> name = ''db'', mode = shared, clientId = ''c2'' \<rparr>],
         pending = Some [\<lparr> name = ''cache'', mode = exclusive, clientId = ''c3'' \<rparr>] \<rparr>
     = Some False"
proof -
  let ?snap = "\<lparr> held = Some [\<lparr> name = ''log'', mode = shared, clientId = ''c1'' \<rparr>,
                              \<lparr> name = ''db'', mode = shared, clientId = ''c2'' \<rparr>],
                 pending = Some [\<lparr> name = ''cache'', mode = exclusive, clientId = ''c3'' \<rparr>] \<rparr>"
  have present: "pending ?snap \<noteq> None"
    by simp
  have db: "appears ''db'' (held (list_locks ?snap))"
    and cache: "appears ''cache'' (pending (list_locks ?snap))"
    and queue: "\<not> appears ''queue'' (held (list_locks ?snap))"
      "\<not> appears ''queue'' (pending (list_locks ?snap))"
    by (simp_all add: appears_def list_locks_def)
  from find_reports_presence [of "''db''" ?snap] present db
  have "find_lock ''db'' ?snap = Some True"
    by simp
  moreover from find_reports_presence [of "''cache''" ?snap] present cache
  have "find_lock ''cache'' ?snap = Some True"
    by simp
  moreover from find_reports_presence [of "''queue''" ?snap] present queue
  have "find_lock ''queue'' ?snap = Some False"
    by simp
  ultimately show ?thesis
    by simp
qed

text \<open>
  C8, as the spec states it, at the empty name: a lock with the empty name is held, and
  \<open>status\<close> of the empty name is \<open>undefined\<close> all the same, because the guard
  \<open>if (innerName)\<close> of line 118 takes the empty string for a missing name.
\<close>

theorem status_empty_name_counterexample:
  "appears ''''
     (held \<lparr> held = Some [\<lparr> name = '''', mode = exclusive, clientId = ''c1'' \<rparr>],
             pending = Some [] \<rparr>)
   \<and> status (Name '''')
       \<lparr> held = Some [\<lparr> name = '''', mode = exclusive, clientId = ''c1'' \<rparr>],
         pending = Some [] \<rparr> = None"
  by (simp add: appears_def status_def)

text \<open>
  C8, amended.  For every argument whose name (the string itself, or the name of the
  handle) is not empty: \<open>status\<close> is \<open>undefined\<close> exactly when the name is in neither
  list of the snapshot; otherwise it answers an object whose \<open>held\<close> and \<open>pending\<close>
  booleans say whether an entry of that name is in the held list and in the pending
  list, and whose entry fields carry that name.
\<close>

theorem status_reports_named_entries:
  assumes "innerName arg = Some n" and "n \<noteq> []"
  shows "(\<not> appears n (held all) \<and> \<not> appears n (pending all) \<longrightarrow> status arg all = None)
       \<and> (appears n (held all) \<or> appears n (pending all) \<longrightarrow>
            (\<exists>r. status arg all = Some r
                \<and> is_held r = appears n (held all)
                \<and> is_pending r = appears n (pending all)
                \<and> name (info r) = n))"
proof -
  have last_named: "name (last (matching n xs)) = n" if "matching n xs \<noteq> []" for xs
  proof -
    have "last (matching n xs) \<in> set (matching n xs)"
      using that by simp
    then show ?thesis
      by (cases xs) (auto simp: matching_def)
  qed
  show ?thesis
    using assms last_named [of "held all"] last_named [of "pending all"]
    by (auto simp: status_def Let_def scan_opt_last nullish_or_def matching_appears [symmetric])
qed

theorem status_reports_named_entries_witness:
  "status (Handle \<lparr> lock_id = 7, lock_name = ''db'', lock_mode = shared \<rparr>)
     \<lparr> held = Some [\<lparr> name = ''db'', mode = shared, clientId = ''c1'' \<rparr>],
       pending = Some [\<lparr> name = ''log'', mode = exclusive, clientId = ''c2'' \<rparr>] \<rparr>
   = Some \<lparr> is_held = True, is_pending = False,
            info = \<lparr> name = ''db'', mode = shared, clientId = ''c1'' \<rparr> \<rparr>
   \<and> status (Name ''cache'')
     \<lparr> held = Some [\<lparr> name = ''db'', mode = shared, clientId = ''c1'' \<rparr>],
       pending = Some [\<lparr> name = ''log'', mode = exclusive, clientId = ''c2'' \<rparr>] \<rparr> = None"
  using status_reports_named_entries
          [of "Handle \<lparr> lock_id = 7, lock_name = ''db'', lock_mode = shared \<rparr>" "''db''"
              "\<lparr> held = Some [\<lparr> name = ''db'', mode = shared, clientId = ''c1'' \<rparr>],
                 pending = Some [\<lparr> name = ''log'', mode = exclusive, clientId = ''c2'' \<rparr>] \<rparr>"]
        status_reports_named_entries
          [of "Name ''cache''" "''cache''"
              "\<lparr> held = Some [\<lparr> name = ''db'', mode = shared, clientId = ''c1'' \<rparr>],
                 pending = Some [\<lparr> name = ''log'', mode = exclusive, clientId = ''c2'' \<rparr>] \<rparr>"]
  by (simp add: status_def scan_opt_def nullish_or_def appears_def)

text \<open>
  C10.  Whenever \<open>status\<close> answers an object, the entry fields in it are those of the
  last entry of the held list with the name, if the held list has one, and otherwise
  those of the last entry of the pending list with the name; the \<open>held\<close> boolean says
  whether the held list has such an entry and the \<open>pending\<close> boolean whether the
  pending list has one, whichever entry gave the fields.  For a name that is not empty
  and has an entry, \<open>status\<close> does answer an object.
\<close>

theorem status_fields_last_match:
  assumes "innerName arg = Some n"
  shows "(\<forall>r. status arg all = Some r \<longrightarrow>
            info r = (if matching n (held all) \<noteq> [] then last (matching n (held all))
                      else last (matching n (pending all)))
          \<and> is_held r = (matching n (held all) \<noteq> [])
          \<and> is_pending r = (matching n (pending all) \<noteq> []))
       \<and> (n \<noteq> [] \<and> matching n (held all) @ matching n (pending all) \<noteq> [] \<longrightarrow>
            status arg all \<noteq> None)"
  using assms
  by (auto simp: status_def Let_def scan_opt_last nullish_or_def split: if_splits)

theorem status_fields_last_match_witness:
  "status (Name ''db'')
     \<lparr> held = Some [\<lparr> name = ''db'', mode = shared, clientId = ''c1'' \<rparr>,
                    \<lparr> name = ''log'', mode = exclusive, clientId = ''c2'' \<rparr>,
                    \<lparr> name = ''db'', mode = shared, clientId = ''c3'' \<rparr>],
       pending = Some [\<lparr> name = ''db'', mode = exclusive, clientId = ''c4'' \<rparr>,
                       \<lparr> name = ''db'', mode = exclusive, clientId = ''c5'' \<rparr>] \<rparr>
   = Some \<lparr> is_held = True, is_pending = True,
            info = \<lparr> name = ''db'', mode = shared, clientId = ''c3'' \<rparr> \<rparr>"
  using status_fields_last_match
          [of "Name ''db''" "''db''"
              "\<lparr> held = Some [\<lparr> name = ''db'', mode = shared, clientId = ''c1'' \<rparr>,
                             \<lparr> name = ''log'', mode = exclusive, clientId = ''c2'' \<rparr>,
                             \<lparr> name = ''db'', mode = shared, clientId = ''c3'' \<rparr>],
                 pending = Some [\<lparr> name = ''db'', mode = exclusive, clientId = ''c4'' \<rparr>,
                                 \<lparr> name = ''db'', mode = exclusive, clientId = ''c5'' \<rparr>] \<rparr>"]
  by (simp add: status_def scan_opt_def nullish_or_def)

section \<open>The timeout source\<close>

lemma timeout_signal_catch_handler:
  "timeout_signal (catch_handler err s) = timeout_signal s"
  by (simp add: catch_handler_def)

text \<open>
  What line 38 decides, for every delay: \<open>AbortSignal.timeout\<close> is called, with the
  effective delay, exactly when that delay is not zero and \<open>steal\<close> is not \<open>true\<close>.
\<close>

lemma timeoutSignal_called:
  "timeoutSignal opt =
     (if effective_timeout opt \<noteq> 0 \<and> steal opt \<noteq> Some True
      then Some (effective_timeout opt) else None)"
  by (simp add: timeoutSignal_def)

text \<open>
  C2, as the spec states it, at a negative delay: \<open>request('db', { timeout: -1 })\<close>.  The
  effective delay is not zero and \<open>steal\<close> is not set, so line 38 calls
  \<open>AbortSignal.timeout(-1)\<close>; the host throws a \<open>TypeError\<close>, no timeout source is
  installed and the future is rejected.
\<close>

theorem timeout_negative_counterexample:
  "effective_timeout
     (effective_opt (Some \<lparr> opt_mode = None, ifAvailable = None, steal = None,
                            signal = None, timeout = Some (- 1) \<rparr>)) \<noteq> 0
   \<and> steal (effective_opt (Some \<lparr> opt_mode = None, ifAvailable = None, steal = None,
                                 signal = None, timeout = Some (- 1) \<rparr>)) \<noteq> Some True
   \<and> timeout_signal
       (start ''db'' (Some \<lparr> opt_mode = None, ifAvailable = None, steal = None,
                             signal = None, timeout = Some (- 1) \<rparr>) False) = None
   \<and> future
       (start ''db'' (Some \<lparr> opt_mode = None, ifAvailable = None, steal = None,
                             signal = None, timeout = Some (- 1) \<rparr>) False)
     = Rejected (Named ''TypeError'')"
  by (simp add: start_def Let_def effective_opt_def effective_timeout_def
        timeoutSignal_def timeout_in_range_def)

text \<open>
  C2, amended.  Let the effective delay of a call be the \<open>timeout\<close> of its options, or
  10000 when the options have none or no options are passed.  For every call of
  \<open>request\<close> whose effective delay is one that \<open>AbortSignal.timeout\<close> accepts (a whole
  number from 0 to \<open>2^53 - 1\<close>), a timeout source is installed exactly when that delay
  is not zero and \<open>steal\<close> is not \<open>true\<close>.  A delay of zero installs none, and neither
  does \<open>steal = true\<close>, whatever the delay.  For every delay, line 38 calls
  \<open>AbortSignal.timeout\<close>, with the effective delay, under exactly that condition.
\<close>

theorem timeout_source_installed:
  assumes "delay = (case given of
                      None \<Rightarrow> 10000
                    | Some opt \<Rightarrow> (case timeout opt of None \<Rightarrow> 10000 | Some ms \<Rightarrow> ms))"
    and "stealing = (case given of None \<Rightarrow> False | Some opt \<Rightarrow> steal opt = Some True)"
  shows "(0 \<le> delay \<and> delay \<le> 2 ^ 53 - 1 \<longrightarrow>
            timeout_signal (start nm given cb)
              = (if delay \<noteq> 0 \<and> \<not> stealing then Some None else None))
       \<and> (delay = 0 \<longrightarrow> timeout_signal (start nm given cb) = None)
       \<and> (stealing \<longrightarrow> timeout_signal (start nm given cb) = None)
       \<and> timeoutSignal (effective_opt given)
           = (if delay \<noteq> 0 \<and> \<not> stealing then Some delay else None)"
proof -
  have delay: "effective_timeout (effective_opt given) = delay"
    using assms(1)
    by (simp add: effective_timeout_def effective_opt_def default_opt_def
          split: option.splits)
  have stealing: "(steal (effective_opt given) = Some True) = stealing"
    using assms(2) by (simp add: effective_opt_def default_opt_def split: option.splits)
  have called: "timeoutSignal (effective_opt given)
                  = (if delay \<noteq> 0 \<and> \<not> stealing then Some delay else None)"
    using delay stealing by (simp add: timeoutSignal_def)
  have installed: "timeout_signal (start nm given cb)
                     = (if delay \<noteq> 0 \<and> \<not> stealing then Some None else None)"
    if "0 \<le> delay" and "delay \<le> 2 ^ 53 - 1"
    using that called
    by (auto simp: start_def Let_def timeout_in_range_def timeout_signal_catch_handler
          split: option.splits)
  have none: "timeout_signal (start nm given cb) = None"
    if "delay = 0 \<or> stealing"
    using that called
    by (auto simp: start_def Let_def timeout_signal_catch_handler split: option.splits)
  from called installed none show ?thesis
    by blast
qed

theorem timeout_source_installed_witness:
  "timeout_signal (start ''db'' None False) = Some None
   \<and> timeoutSignal (effective_opt None) = Some 10000
   \<and> timeout_signal
       (start ''db'' (Some \<lparr> opt_mode = None, ifAvailable = None, steal = None,
                             signal = None, timeout = Some 60000 \<rparr>) False) = Some None
   \<and> timeoutSignal
       (effective_opt (Some \<lparr> opt_mode = None, ifAvailable = None, steal = None,
                              signal = None, timeout = Some 60000 \<rparr>)) = Some 60000
   \<and> timeout_signal
       (start ''db'' (Some \<lparr> opt_mode = None, ifAvailable = None, steal = Some False,
                             signal = None, timeout = Some 0 \<rparr>) False) = None
   \<and> timeout_signal
       (start ''db'' (Some \<lparr> opt_mode = None, ifAvailable = None, steal = Some True,
                             signal = None, timeout = Some 60000 \<rparr>) False) = None
   \<and> timeout_signal
       (start ''db'' (Some \<lparr> opt_mode = None, ifAvailable = None, steal = Some False,
                             signal = None, timeout = None \<rparr>) False) = Some None"
proof -
  have a: "timeout_signal (start ''db'' None False) = Some None
           \<and> timeoutSignal (effective_opt None) = Some 10000"
    using timeout_source_installed [of 10000 None False "''db''" False]
    by simp
  have b: "timeout_signal
             (start ''db'' (Some \<lparr> opt_mode = None, ifAvailable = None, steal = None,
                                   signal = None, timeout = Some 60000 \<rparr>) False) = Some None
           \<and> timeoutSignal
               (effective_opt (Some \<lparr> opt_mode = None, ifAvailable = None, steal = None,
                                      signal = None, timeout = Some 60000 \<rparr>)) = Some 60000"
    using timeout_source_installed
            [of 60000 "Some \<lparr> opt_mode = None, ifAvailable = None, steal = None,
                               signal = None, timeout = Some 60000 \<rparr>" False "''db''" False]
    by simp
  have c: "timeout_signal
             (start ''db'' (Some \<lparr> opt_mode = None, ifAvailable = None, steal = Some False,
                                   signal = None, timeout = Some 0 \<rparr>) False) = None"
    using timeout_source_installed
            [of 0 "Some \<lparr> opt_mode = None, ifAvailable = None, steal = Some False,
                           signal = None, timeout = Some 0 \<rparr>" False "''db''" False]
    by simp
  have d: "timeout_signal
             (start ''db'' (Some \<lparr> opt_mode = None, ifAvailable = None, steal = Some True,
                                   signal = None, timeout = Some 60000 \<rparr>) False) = None"
    using timeout_source_installed
            [of 60000 "Some \<lparr> opt_mode = None, ifAvailable = None, steal = Some True,
                               signal = None, timeout = Some 60000 \<rparr>" True "''db''" False]
    by simp
  have e: "timeout_signal
             (start ''db'' (Some \<lparr> opt_mode = None, ifAvailable = None, steal = Some False,
                                   signal = None, timeout = None \<rparr>) False) = Some None"
    using timeout_source_installed
            [of 10000 "Some \<lparr> opt_mode = None, ifAvailable = None, steal = Some False,
                               signal = None, timeout = None \<rparr>" False "''db''" False]
    by simp
  from a b c d e show ?thesis
    by blast
qed

section \<open>One call of \<open>request\<close>: what stays fixed\<close>

lemma catch_handler_fields [simp]:
  "phase (catch_handler err s) = phase s"
  "has_callback (catch_handler err s) = has_callback s"
  "calls (catch_handler err s) = calls s"
  "waitDone (catch_handler err s) = waitDone s"
  "caller_signal (catch_handler err s) = caller_signal s"
  "timeout_signal (catch_handler err s) = timeout_signal s"
  "inner_ctrl (catch_handler err s) = inner_ctrl s"
  by (simp_all add: catch_handler_def)

lemma catch_handler_settled [simp]:
  "future s \<noteq> Pending \<Longrightarrow> future (catch_handler err s) = future s"
  by (cases "future s") (simp_all add: catch_handler_def reject_def)

lemma catch_handler_pending:
  "future s = Pending \<Longrightarrow> err \<noteq> Null \<Longrightarrow> err \<noteq> Undefined \<Longrightarrow>
   future (catch_handler err s) = Rejected err"
  by (simp add: catch_handler_def reject_def)

lemma has_callback_step [simp]: "has_callback (step e s) = has_callback s"
  by (cases e)
     (auto simp: on_caller_abort_def on_timeout_def manager_on_abort_def on_grant_def
        on_settled_def on_done_def on_steal_def Let_def
        split: option.splits phase.splits promise.splits)

lemma has_callback_run [simp]: "has_callback (run es s) = has_callback s"
  by (induction es arbitrary: s) simp_all

text \<open>A settled future is never changed again.\<close>

lemma future_settled_step:
  "future s \<noteq> Pending \<Longrightarrow> future (step e s) = future s"
  by (cases e)
     (auto simp: on_caller_abort_def on_timeout_def manager_on_abort_def on_grant_def
        on_settled_def on_done_def on_steal_def Let_def resolve_def
        split: option.splits phase.splits promise.splits)

lemma future_settled_run:
  "future s \<noteq> Pending \<Longrightarrow> future (run es s) = future s"
  by (induction es arbitrary: s) (simp_all add: future_settled_step)

lemma waiting_inv_start: "waiting_inv (start nm given cb)"
  by (simp add: waiting_inv_def start_def Let_def split: option.splits)

lemma waiting_inv_step: "waiting_inv s \<Longrightarrow> waiting_inv (step e s)"
  by (cases e)
     (auto simp: waiting_inv_def on_caller_abort_def on_timeout_def manager_on_abort_def
        on_grant_def on_settled_def on_done_def on_steal_def Let_def
        split: option.splits phase.splits promise.splits if_splits)

lemma waiting_inv_run: "waiting_inv s \<Longrightarrow> waiting_inv (run es s)"
  by (induction es arbitrary: s) (simp_all add: waiting_inv_step)

lemma in_callback_grant:
  assumes "waiting_inv s" and "has_callback s" and "phase s = Queued"
  shows "in_callback l (step (Grant l) s)"
  using assms by (simp add: waiting_inv_def in_callback_def on_grant_def Let_def resolve_def)

lemma in_callback_step:
  assumes "in_callback l s" and "\<not> is_settled e" and "e \<noteq> Steal"
  shows "in_callback l (step e s)"
  using assms
  by (cases e)
     (auto simp: in_callback_def on_caller_abort_def on_timeout_def manager_on_abort_def
        on_grant_def on_done_def split: option.splits)

lemma in_callback_run:
  assumes "in_callback l s" and "list_all (\<lambda>e. \<not> is_settled e \<and> e \<noteq> Steal) es"
  shows "in_callback l (run es s)"
  using assms by (induction es arbitrary: s) (simp_all add: in_callback_step)

lemma in_callback_settled:
  assumes "in_callback l s"
  shows "phase (step (Settled outcome) s) = Finished"
    and "future (step (Settled outcome) s) = Fulfilled l"
    and "calls (step (Settled outcome) s) = [l]"
  using assms by (auto simp: in_callback_def on_settled_def split: option.splits)

lemma callback_running_start: "in_callback l s \<Longrightarrow> callback_running l s"
  by (simp add: in_callback_def callback_running_def)

lemma callback_running_step:
  assumes "callback_running l s" and "\<not> is_settled e"
  shows "callback_running l (step e s)"
  using assms
  by (cases e)
     (auto simp: callback_running_def on_caller_abort_def on_timeout_def
        manager_on_abort_def on_grant_def on_done_def on_steal_def
        split: option.splits)

lemma callback_running_run:
  assumes "callback_running l s" and "list_all (\<lambda>e. \<not> is_settled e) es"
  shows "callback_running l (run es s)"
  using assms by (induction es arbitrary: s) (simp_all add: callback_running_step)

lemma callback_running_settled:
  assumes "callback_running l s"
  shows "future (step (Settled outcome) s) = Fulfilled l"
    and "held_by (step (Settled outcome) s) = None"
  using assms
  by (auto simp: callback_running_def on_settled_def held_by_def split: option.splits)

lemmas start_eval =
  start_def Let_def effective_opt_def default_opt_def timeoutSignal_def
  effective_timeout_def timeout_in_range_def passed_signal_def refusal_def
  catch_handler_def reject_def

lemmas step_eval =
  on_caller_abort_def on_timeout_def manager_on_abort_def on_grant_def on_settled_def
  on_done_def on_steal_def passed_signal_def catch_handler_def reject_def resolve_def
  abort_def

section \<open>Callback mode\<close>

text \<open>
  A request with \<open>steal\<close> goes through this class to the manager: line 38 gives it no
  timeout signal, and without a caller signal the manager accepts it.
\<close>

lemma steal_request_accepted:
  assumes "steal opt = Some True" and "ifAvailable opt \<noteq> Some True"
    and "opt_mode opt \<noteq> Some shared" and "signal opt = None" and "take 1 nm \<noteq> ''-''"
  shows "phase (start nm (Some opt) cb) = Queued"
    and "passed_signal (start nm (Some opt) cb) = None"
  using assms
  by (simp_all add: start_def Let_def effective_opt_def timeoutSignal_def
        passed_signal_def refusal_def)

text \<open>
  C3, as the spec states it: the lock is granted to a call with a callback, the callback
  is called and has not settled, and another request steals the lock.  The call no
  longer holds the lock while its callback is still running.
\<close>

theorem callback_lock_stolen_counterexample:
  "calls (run [Grant (Some \<lparr> lock_id = 1, lock_name = ''db'', lock_mode = exclusive \<rparr>), Steal]
            (start ''db'' None True))
     = [Some \<lparr> lock_id = 1, lock_name = ''db'', lock_mode = exclusive \<rparr>]
   \<and> held_by (run [Grant (Some \<lparr> lock_id = 1, lock_name = ''db'', lock_mode = exclusive \<rparr>),
                   Steal]
                (start ''db'' None True))
     = None"
  by (simp add: start_eval step_eval held_by_def)

text \<open>
  C3, amended.  Take any call of \<open>request\<close> with a callback, at any moment at which its
  request waits in the manager's queue.  When the manager grants the lock, the future
  is resolved with the handle and the callback is called, once, with that handle.
  Whatever happens next other than the callback settling or another request stealing
  the lock (signals firing, the timeout elapsing, further grants, wake actions), the
  lock stays granted to this call and the future keeps the handle.  When the callback
  settles, with success or with a failure, the lock is released.
\<close>

theorem callback_holds_until_settled:
  assumes "s = run before (start nm given True)"
    and "phase s = Queued"
    and "list_all (\<lambda>e. \<not> is_settled e \<and> e \<noteq> Steal) during"
  shows "future (step (Grant l) s) = Fulfilled l
       \<and> calls (step (Grant l) s) = [l]
       \<and> phase (run during (step (Grant l) s)) = Granted l
       \<and> held_by (run during (step (Grant l) s)) = l
       \<and> future (run during (step (Grant l) s)) = Fulfilled l
       \<and> calls (run during (step (Grant l) s)) = [l]
       \<and> phase (step (Settled outcome) (run during (step (Grant l) s))) = Finished
       \<and> held_by (step (Settled outcome) (run during (step (Grant l) s))) = None"
proof -
  have "waiting_inv s"
    using assms(1) by (simp add: waiting_inv_start waiting_inv_run)
  moreover have "has_callback s"
    using assms(1) by (simp add: start_def Let_def split: option.splits)
  ultimately have granted: "in_callback l (step (Grant l) s)"
    using assms(2) by (rule in_callback_grant)
  then have running: "in_callback l (run during (step (Grant l) s))"
    using assms(3) by (rule in_callback_run)
  have "held_by t = l" if "phase t = Granted l" for t
    using that by (simp add: held_by_def)
  moreover have "held_by t = None" if "phase t = Finished" for t
    using that by (simp add: held_by_def)
  ultimately show ?thesis
    using granted running in_callback_settled(1) [OF running]
    by (simp add: in_callback_def)
qed

theorem callback_holds_until_settled_witness:
  "phase (start ''db'' None True) = Queued
   \<and> future (step (Grant (Some \<lparr> lock_id = 1, lock_name = ''db'', lock_mode = exclusive \<rparr>))
               (start ''db'' None True))
     = Fulfilled (Some \<lparr> lock_id = 1, lock_name = ''db'', lock_mode = exclusive \<rparr>)
   \<and> held_by (run [TimeoutElapsed, Done, Grant None]
                (step (Grant (Some \<lparr> lock_id = 1, lock_name = ''db'', lock_mode = exclusive \<rparr>))
                   (start ''db'' None True)))
     = Some \<lparr> lock_id = 1, lock_name = ''db'', lock_mode = exclusive \<rparr>
   \<and> held_by (step (Settled None)
                (run [TimeoutElapsed, Done, Grant None]
                   (step (Grant (Some \<lparr> lock_id = 1, lock_name = ''db'', lock_mode = exclusive \<rparr>))
                      (start ''db'' None True))))
     = None"
proof -
  have queued: "phase (start ''db'' None True) = Queued"
    by (simp add: start_eval)
  have quiet: "list_all (\<lambda>e. \<not> is_settled e \<and> e \<noteq> Steal) [TimeoutElapsed, Done, Grant None]"
    by simp
  have "start ''db'' None True = run [] (start ''db'' None True)"
    by simp
  from callback_holds_until_settled [OF this queued quiet] queued show ?thesis
    by simp
qed

text \<open>
  C4, as the spec states it: a callback that fails after the grant.  The future was
  resolved with the handle at the grant, so \<open>rejectorLock(err)\<close> of line 67 changes
  nothing and the caller's future does not carry the failure.
\<close>

theorem callback_failure_counterexample:
  "future (run [Grant (Some \<lparr> lock_id = 1, lock_name = ''db'', lock_mode = exclusive \<rparr>),
                Settled (Some (Named ''Error''))]
             (start ''db'' None True))
     = Fulfilled (Some \<lparr> lock_id = 1, lock_name = ''db'', lock_mode = exclusive \<rparr>)
   \<and> future (run [Grant (Some \<lparr> lock_id = 1, lock_name = ''db'', lock_mode = exclusive \<rparr>),
                  Settled (Some (Named ''Error''))]
               (start ''db'' None True))
     \<noteq> Rejected (Named ''Error'')"
  by (simp add: start_eval step_eval)

text \<open>
  C4, amended.  For every call of \<open>request\<close> with a callback that throws or rejects
  after the lock is granted, whatever happened while the callback ran: the caller's
  future stays resolved with the handle it received at the grant, and once the callback
  has settled the call holds no lock.
\<close>

theorem callback_failure_keeps_handle:
  assumes "s = run before (start nm given True)"
    and "phase s = Queued"
    and "list_all (\<lambda>e. \<not> is_settled e) during"
  shows "future (step (Settled (Some err)) (run during (step (Grant l) s))) = Fulfilled l
       \<and> held_by (step (Settled (Some err)) (run during (step (Grant l) s))) = None"
proof -
  have "waiting_inv s"
    using assms(1) by (simp add: waiting_inv_start waiting_inv_run)
  moreover have "has_callback s"
    using assms(1) by (simp add: start_def Let_def split: option.splits)
  ultimately have "in_callback l (step (Grant l) s)"
    using assms(2) by (rule in_callback_grant)
  then have "callback_running l (step (Grant l) s)"
    by (rule callback_running_start)
  then have running: "callback_running l (run during (step (Grant l) s))"
    using assms(3) by (rule callback_running_run)
  from callback_running_settled(1) [OF running] callback_running_settled(2) [OF running]
  show ?thesis
    by blast
qed

theorem callback_failure_keeps_handle_witness:
  "phase (start ''db'' None True) = Queued
   \<and> future (step (Settled (Some (Named ''Error'')))
               (run [CallerAbort Plain, TimeoutElapsed]
                  (step (Grant (Some \<lparr> lock_id = 1, lock_name = ''db'', lock_mode = shared \<rparr>))
                     (start ''db'' None True))))
     = Fulfilled (Some \<lparr> lock_id = 1, lock_name = ''db'', lock_mode = shared \<rparr>)
   \<and> held_by (step (Settled (Some (Named ''Error'')))
                (run [CallerAbort Plain, TimeoutElapsed]
                   (step (Grant (Some \<lparr> lock_id = 1, lock_name = ''db'', lock_mode = shared \<rparr>))
                      (start ''db'' None True))))
     = None"
proof -
  have queued: "phase (start ''db'' None True) = Queued"
    by (simp add: start_eval)
  have quiet: "list_all (\<lambda>e. \<not> is_settled e) [CallerAbort Plain, TimeoutElapsed]"
    by simp
  have "start ''db'' None True = run [] (start ''db'' None True)"
    by simp
  from callback_failure_keeps_handle [OF this queued quiet] queued show ?thesis
    by simp
qed

section \<open>Cancellation\<close>

text \<open>
  The options of a call with a quiet caller signal and a timeout, and what \<open>request\<close>
  sets up for them.
\<close>

lemma start_both_sources:
  assumes "signal opt = Some None" and "timeout opt = Some ms" and "0 < ms"
    and "ms \<le> 2 ^ 53 - 1" and "steal opt \<noteq> Some True" and "ifAvailable opt \<noteq> Some True"
    and "take 1 nm \<noteq> ''-''"
  shows "phase (start nm (Some opt) cb) = Queued"
    and "future (start nm (Some opt) cb) = Pending"
    and "caller_signal (start nm (Some opt) cb) = Some None"
    and "timeout_signal (start nm (Some opt) cb) = Some None"
    and "inner_ctrl (start nm (Some opt) cb) = Some None"
  using assms
  by (simp_all add: start_def Let_def effective_opt_def timeoutSignal_def
        effective_timeout_def timeout_in_range_def passed_signal_def refusal_def)

text \<open>The caller's signal fires first: the future is rejected with an \<open>AbortError\<close>.\<close>

lemma caller_first:
  assumes "phase s = Queued" and "future s = Pending"
    and "caller_signal s = Some None" and "inner_ctrl s = Some None"
  shows "future (step (CallerAbort reason) s) = Rejected (Named ''AbortError'')"
    and "phase (step (CallerAbort reason) s) = Aborted"
  using assms by (simp_all add: step_eval)

text \<open>
  The timeout fires first, the caller gave a signal: the future is rejected with the
  event object, and line 66 writes no warning.
\<close>

lemma timeout_first:
  assumes "phase s = Queued" and "future s = Pending"
    and "timeout_signal s = Some None" and "inner_ctrl s = Some None"
  shows "future (step TimeoutElapsed s) = Rejected AbortEvent"
    and "phase (step TimeoutElapsed s) = Aborted"
    and "warnings (step TimeoutElapsed s) = warnings s"
  using assms by (simp_all add: step_eval)

text \<open>
  The timeout fires and the caller gave no signal: the future is rejected with a
  \<open>TimeoutError\<close>, and line 66 writes its warning.
\<close>

lemma timeout_alone:
  assumes "phase s = Queued" and "future s = Pending"
    and "timeout_signal s = Some None" and "inner_ctrl s = None"
  shows "future (step TimeoutElapsed s) = Rejected (Named ''TimeoutError'')"
    and "phase (step TimeoutElapsed s) = Aborted"
    and "warnings (step TimeoutElapsed s) = Suc (warnings s)"
  using assms by (simp_all add: step_eval)

text \<open>
  C1.  A call with a caller signal and a timeout of 50 ms, waiting for a lock that
  is taken; the timeout elapses first.  The future is rejected with the \<open>abort\<close> event
  that the listener of line 47 received and passed on as the reason, and that value has
  no \<open>name\<close>: the rejection is not a \<open>TimeoutError\<close>.  The caller's signal firing
  afterwards changes nothing.
\<close>

theorem timeout_with_signal_rejects_with_event:
  "phase (start ''db''
            (Some \<lparr> opt_mode = None, ifAvailable = None, steal = None,
                    signal = Some None, timeout = Some 50 \<rparr>) False) = Queued
   \<and> future (run [TimeoutElapsed]
               (start ''db''
                  (Some \<lparr> opt_mode = None, ifAvailable = None, steal = None,
                          signal = Some None, timeout = Some 50 \<rparr>) False))
     = Rejected AbortEvent
   \<and> name_of AbortEvent \<noteq> Some ''TimeoutError''
   \<and> future (run [TimeoutElapsed, CallerAbort Undefined]
               (start ''db''
                  (Some \<lparr> opt_mode = None, ifAvailable = None, steal = None,
                          signal = Some None, timeout = Some 50 \<rparr>) False))
     = Rejected AbortEvent"
  by (simp add: start_eval step_eval)

section \<open>\<open>ifAvailable\<close>\<close>

text \<open>
  With \<open>ifAvailable\<close> set and a signal to pass on (the caller's, or the timeout signal
  that line 38 creates unless the delay is zero or \<open>steal\<close> is set), the manager refuses
  the call, and the future is rejected.
\<close>

lemma ifAvailable_with_signal_refused:
  assumes "ifAvailable opt = Some True"
    and "signal opt \<noteq> None \<or> timeoutSignal opt \<noteq> None"
    and "\<forall>ms. timeoutSignal opt = Some ms \<longrightarrow> timeout_in_range ms"
  shows "future (start nm (Some opt) cb) = Rejected (Named ''NotSupportedError'')"
    and "phase (start nm (Some opt) cb) = Refused"
  using assms
  by (auto simp: start_def Let_def effective_opt_def passed_signal_def refusal_def
        catch_handler_def reject_def split: option.splits)

text \<open>With \<open>ifAvailable\<close>, a delay of zero and no signal, the answer \<open>null\<close> reaches the future.\<close>

lemma ifAvailable_without_signal:
  assumes "ifAvailable opt = Some True" and "signal opt = None" and "timeout opt = Some 0"
    and "steal opt \<noteq> Some True" and "take 1 nm \<noteq> ''-''"
  shows "phase (start nm (Some opt) cb) = Queued"
    and "future (step (Grant None) (start nm (Some opt) cb)) = Fulfilled None"
  using assms
  by (simp_all add: start_def Let_def effective_opt_def timeoutSignal_def
        effective_timeout_def passed_signal_def refusal_def on_grant_def resolve_def)

text \<open>The future holds \<open>null\<close> only when the manager has answered \<open>null\<close>.\<close>

lemma null_only_from_manager_step:
  "future (step e s) = Fulfilled None \<Longrightarrow> future s = Fulfilled None \<or> e = Grant None"
  by (cases e)
     (auto simp: step_eval Let_def split: option.splits phase.splits promise.splits if_splits)

lemma null_only_from_manager_run:
  "future (run es s) = Fulfilled None \<Longrightarrow> future s = Fulfilled None \<or> Grant None \<in> set es"
proof (induction es arbitrary: s)
  case Nil
  then show ?case by simp
next
  case (Cons e es)
  from Cons.IH [of "step e s"] Cons.prems
  have "future (step e s) = Fulfilled None \<or> Grant None \<in> set es"
    by simp
  then show ?case
    using null_only_from_manager_step [of e s] by auto
qed

lemma start_not_null: "future (start nm given cb) \<noteq> Fulfilled None"
  by (auto simp: start_def Let_def catch_handler_def reject_def split: option.splits)

lemma null_only_from_manager:
  "future (run es (start nm given cb)) = Fulfilled None \<Longrightarrow> Grant None \<in> set es"
  using null_only_from_manager_run [of es "start nm given cb"] start_not_null by blast

text \<open>
  C7.  \<open>request('db', { ifAvailable: true })\<close> while the lock is taken.  No timeout is
  given, so line 38 creates the timeout signal for the default delay and line 55 passes
  it on together with \<open>ifAvailable\<close>; the manager refuses that combination.  The future
  is rejected with a \<open>NotSupportedError\<close>, not resolved with \<open>null\<close>.
\<close>

theorem ifAvailable_default_timeout_rejected:
  "future (start ''db''
             (Some \<lparr> opt_mode = None, ifAvailable = Some True, steal = None,
                     signal = None, timeout = None \<rparr>) False)
     = Rejected (Named ''NotSupportedError'')
   \<and> phase (start ''db''
             (Some \<lparr> opt_mode = None, ifAvailable = Some True, steal = None,
                     signal = None, timeout = None \<rparr>) False) = Refused
   \<and> future (run [Grant None]
               (start ''db''
                  (Some \<lparr> opt_mode = None, ifAvailable = Some True, steal = None,
                          signal = None, timeout = None \<rparr>) False))
     \<noteq> Fulfilled None"
  by (simp add: start_eval step_eval)

section \<open>\<open>release\<close>\<close>

lemma on_done_idem: "on_done (on_done s) = on_done s"
  by (auto simp: on_done_def split: option.splits promise.splits)

lemma on_done_resolved: "waitDone s = Some (Fulfilled ()) \<Longrightarrow> on_done s = s"
  by (simp add: on_done_def)

text \<open>
  C5.  \<open>release\<close> has no failing branch: for every argument it returns the next state.
  For \<open>null\<close> and for a handle without an entry in \<open>lockMap\<close> that state is the old one.
  For a handle with an entry, \<open>release\<close> invokes the wake action of the call that
  the entry names and changes nothing else.  For a handle whose wake action has run
  before (the entry stays in \<open>lockMap\<close>, \<open>waitDone\<close> is resolved) the state is the old
  one, whatever happened in between, and a second \<open>release\<close> of the same handle leaves
  the state as the first one left it.
\<close>

theorem release_wakes_once:
  "release None b = b
   \<and> (lockMap b l = None \<longrightarrow> release (Some l) b = b)
   \<and> (lockMap b l = Some i \<longrightarrow>
        sessions (release (Some l) b) = (sessions b)[i := on_done (sessions b ! i)]
        \<and> lockMap (release (Some l) b) = lockMap b)
   \<and> (lockMap b l = Some i \<and> waitDone (sessions b ! i) = Some (Fulfilled ()) \<longrightarrow>
        release (Some l) b = b)
   \<and> release h (release h b) = release h b"
proof -
  have twice: "release h (release h b) = release h b"
  proof (cases h)
    case None
    then show ?thesis by (simp add: release_def)
  next
    case (Some k)
    show ?thesis
    proof (cases "lockMap b k")
      case None
      with Some show ?thesis by (simp add: release_def)
    next
      case (Some i)
      show ?thesis
      proof (cases "i < length (sessions b)")
        case True
        with Some \<open>h = Some k\<close> show ?thesis
          by (simp add: release_def on_done_idem)
      next
        case False
        then have "(sessions b)[i := v] = sessions b" for v
          by (simp add: list_update_beyond)
        with Some \<open>h = Some k\<close> show ?thesis
          by (simp add: release_def)
      qed
    qed
  qed
  have resolved: "release (Some l) b = b"
    if "lockMap b l = Some i" and "waitDone (sessions b ! i) = Some (Fulfilled ())"
    using that by (simp add: release_def on_done_resolved)
  from twice resolved show ?thesis
    by (simp add: release_def)
qed

theorem release_wakes_once_witness:
  "holds (grant 0 (Some \<lparr> lock_id = 1, lock_name = ''db'', lock_mode = exclusive \<rparr>)
            (request ''db'' None False \<lparr> lockMap = Map.empty, sessions = [] \<rparr>))
         0 \<lparr> lock_id = 1, lock_name = ''db'', lock_mode = exclusive \<rparr>
   \<and> phase
       (sessions
          (release (Some \<lparr> lock_id = 1, lock_name = ''db'', lock_mode = exclusive \<rparr>)
             (grant 0 (Some \<lparr> lock_id = 1, lock_name = ''db'', lock_mode = exclusive \<rparr>)
                (request ''db'' None False \<lparr> lockMap = Map.empty, sessions = [] \<rparr>))) ! 0)
     = Finished
   \<and> release (Some \<lparr> lock_id = 1, lock_name = ''db'', lock_mode = exclusive \<rparr>)
       (release (Some \<lparr> lock_id = 1, lock_name = ''db'', lock_mode = exclusive \<rparr>)
          (grant 0 (Some \<lparr> lock_id = 1, lock_name = ''db'', lock_mode = exclusive \<rparr>)
             (request ''db'' None False \<lparr> lockMap = Map.empty, sessions = [] \<rparr>)))
     = release (Some \<lparr> lock_id = 1, lock_name = ''db'', lock_mode = exclusive \<rparr>)
         (grant 0 (Some \<lparr> lock_id = 1, lock_name = ''db'', lock_mode = exclusive \<rparr>)
            (request ''db'' None False \<lparr> lockMap = Map.empty, sessions = [] \<rparr>))
   \<and> release (Some \<lparr> lock_id = 2, lock_name = ''db'', lock_mode = exclusive \<rparr>)
       (grant 0 (Some \<lparr> lock_id = 1, lock_name = ''db'', lock_mode = exclusive \<rparr>)
          (request ''db'' None False \<lparr> lockMap = Map.empty, sessions = [] \<rparr>))
     = grant 0 (Some \<lparr> lock_id = 1, lock_name = ''db'', lock_mode = exclusive \<rparr>)
         (request ''db'' None False \<lparr> lockMap = Map.empty, sessions = [] \<rparr>)"
proof -
  let ?l = "\<lparr> lock_id = 1, lock_name = ''db'', lock_mode = exclusive \<rparr>"
  let ?k = "\<lparr> lock_id = 2, lock_name = ''db'', lock_mode = exclusive \<rparr>"
  let ?b = "grant 0 (Some ?l) (request ''db'' None False \<lparr> lockMap = Map.empty, sessions = [] \<rparr>)"
  have entry: "lockMap ?b ?l = Some 0" and no_entry: "lockMap ?b ?k = None"
    and len: "length (sessions ?b) = 1"
    and ph: "held_by (sessions ?b ! 0) = Some ?l"
    and gr: "phase (sessions ?b ! 0) = Granted (Some ?l)"
    and wd: "waitDone (sessions ?b ! 0) = Some Pending"
    by (simp_all add: grant_def request_def start_eval on_grant_def resolve_def held_by_def)
  have pos: "0 < length (sessions ?b)"
    using len by simp
  from release_wakes_once [of ?b ?l 0 "Some ?l"] entry
  have woken: "sessions (release (Some ?l) ?b) = (sessions ?b)[0 := on_done (sessions ?b ! 0)]"
    and twice: "release (Some ?l) (release (Some ?l) ?b) = release (Some ?l) ?b"
    by blast+
  from release_wakes_once [of ?b ?k] no_entry
  have unknown: "release (Some ?k) ?b = ?b"
    by blast
  have "sessions (release (Some ?l) ?b) ! 0 = on_done (sessions ?b ! 0)"
    using pos by (simp only: woken nth_list_update_eq)
  then have "phase (sessions (release (Some ?l) ?b) ! 0) = Finished"
    using wd gr by (simp add: on_done_def)
  with twice unknown ph pos show ?thesis
    by (simp only: holds_def simp_thms)
qed

section \<open>The lock table\<close>

lemma holders_ok_iff:
  "holders_ok hs \<longleftrightarrow> list_all (\<lambda>h. fst h = shared) hs \<or> length hs \<le> 1"
proof
  assume ok: "holders_ok hs"
  show "list_all (\<lambda>h. fst h = shared) hs \<or> length hs \<le> 1"
  proof (cases "list_ex (\<lambda>h. fst h = exclusive) hs")
    case True
    with ok show ?thesis by (simp add: holders_ok_def)
  next
    case False
    have "fst h = shared" if "h \<in> set hs" for h
      using False that by (cases "fst h") (auto simp: list_ex_iff)
    then show ?thesis by (simp add: list_all_iff)
  qed
next
  assume "list_all (\<lambda>h. fst h = shared) hs \<or> length hs \<le> 1"
  then show "holders_ok hs"
  proof
    assume "list_all (\<lambda>h. fst h = shared) hs"
    then show ?thesis
      by (auto simp: holders_ok_def list_all_iff list_ex_iff)
  next
    assume "length hs \<le> 1"
    then show ?thesis
      by (cases hs) (auto simp: holders_ok_def)
  qed
qed

lemma holders_ok_filter: "holders_ok hs \<Longrightarrow> holders_ok (filter P hs)"
proof -
  assume "holders_ok hs"
  then consider "list_all (\<lambda>h. fst h = shared) hs" | "length hs \<le> 1"
    by (auto simp: holders_ok_iff)
  then show ?thesis
  proof cases
    case 1
    then show ?thesis by (simp add: holders_ok_iff list_all_iff)
  next
    case 2
    have "length (filter P hs) \<le> length hs" by simp
    with 2 have "length (filter P hs) \<le> 1" by linarith
    then show ?thesis by (simp add: holders_ok_iff)
  qed
qed

lemma holders_ok_compatible:
  "holders_ok hs \<Longrightarrow> compatible m hs \<Longrightarrow> holders_ok (hs @ [(m, i)])"
  by (auto simp: holders_ok_iff compatible_def)

lemma holders_ok_admit: "holders_ok hs \<Longrightarrow> holders_ok (holders (admit hs ws))"
  by (induction hs ws rule: admit.induct) (simp_all add: holders_ok_compatible)

lemma holders_ok_tryGrant: "holders_ok (holders e) \<Longrightarrow> holders_ok (holders (tryGrant r e))"
proof -
  assume ok: "holders_ok (holders e)"
  have single: "holders_ok [(req_mode r, req_id r)]"
    by (simp add: holders_ok_iff)
  show ?thesis
    using ok single holders_ok_admit [OF single, of "waiters e"]
    by (auto simp: tryGrant_def holders_ok_compatible compatible_def)
qed

lemma holders_ok_release_holder:
  "holders_ok (holders e) \<Longrightarrow> holders_ok (holders (release_holder i e))"
  by (simp add: release_holder_def holders_ok_admit holders_ok_filter)

lemma holders_ok_cancel: "holders_ok (holders e) \<Longrightarrow> holders_ok (holders (cancel i e))"
  by (simp add: cancel_def)

lemma holders_ok_apply_op:
  assumes "\<And>n. holders_ok (holders (t n))"
  shows "holders_ok (holders (apply_op x t n))"
  using assms
  by (cases x)
     (simp_all add: holders_ok_tryGrant holders_ok_release_holder holders_ok_cancel)

lemma holders_ok_run_table:
  assumes "\<And>n. holders_ok (holders (t n))"
  shows "holders_ok (holders (run_table xs t n))"
  using assms
proof (induction xs arbitrary: t n)
  case Nil
  then show ?case by simp
next
  case (Cons x xs)
  show ?case
    by (simp, rule Cons.IH, rule holders_ok_apply_op, rule Cons.prems)
qed

text \<open>
  C9.  In every state that the lock table reaches from the empty table by requests,
  releases and cancellations, and for every name, the holders are at most one exclusive
  holder or any number of shared holders: an exclusive holder is the only holder.  A
  stealing request evicts and grants in one transition of the table, so the states in
  between are not states of the table.
\<close>

theorem lock_table_holders_ok:
  "holders_ok (holders (run_table xs empty_table n))"
  by (rule holders_ok_run_table) (simp add: empty_table_def holders_ok_def)

theorem lock_table_holders_ok_witness:
  "holders
     (run_table
        [TryGrant ''db'' \<lparr> req_id = 1, req_mode = exclusive, req_ifAvailable = False, req_steal = False \<rparr>,
         TryGrant ''db'' \<lparr> req_id = 2, req_mode = shared, req_ifAvailable = False, req_steal = False \<rparr>,
         TryGrant ''db'' \<lparr> req_id = 3, req_mode = shared, req_ifAvailable = False, req_steal = False \<rparr>,
         TryGrant ''db'' \<lparr> req_id = 4, req_mode = exclusive, req_ifAvailable = False, req_steal = False \<rparr>,
         ReleaseHolder ''db'' 1]
        empty_table ''db'')
     = [(shared, 2), (shared, 3)]
   \<and> holders_ok [(shared, 2), (shared, 3)]
   \<and> holders
       (run_table
          [TryGrant ''db'' \<lparr> req_id = 1, req_mode = shared, req_ifAvailable = False, req_steal = False \<rparr>,
           TryGrant ''db'' \<lparr> req_id = 2, req_mode = shared, req_ifAvailable = False, req_steal = False \<rparr>,
           TryGrant ''db'' \<lparr> req_id = 3, req_mode = exclusive, req_ifAvailable = False, req_steal = True \<rparr>]
          empty_table ''db'')
     = [(exclusive, 3)]
   \<and> holders_ok [(exclusive, 3)]"
proof -
  let ?xs = "[TryGrant ''db'' \<lparr> req_id = 1, req_mode = exclusive, req_ifAvailable = False, req_steal = False \<rparr>,
         TryGrant ''db'' \<lparr> req_id = 2, req_mode = shared, req_ifAvailable = False, req_steal = False \<rparr>,
         TryGrant ''db'' \<lparr> req_id = 3, req_mode = shared, req_ifAvailable = False, req_steal = False \<rparr>,
         TryGrant ''db'' \<lparr> req_id = 4, req_mode = exclusive, req_ifAvailable = False, req_steal = False \<rparr>,
         ReleaseHolder ''db'' 1]"
  let ?ys = "[TryGrant ''db'' \<lparr> req_id = 1, req_mode = shared, req_ifAvailable = False, req_steal = False \<rparr>,
           TryGrant ''db'' \<lparr> req_id = 2, req_mode = shared, req_ifAvailable = False, req_steal = False \<rparr>,
           TryGrant ''db'' \<lparr> req_id = 3, req_mode = exclusive, req_ifAvailable = False, req_steal = True \<rparr>]"
  have a: "holders (run_table ?xs empty_table ''db'') = [(shared, 2), (shared, 3)]"
    by (simp add: empty_table_def tryGrant_def release_holder_def compatible_def)
  have b: "holders (run_table ?ys empty_table ''db'') = [(exclusive, 3)]"
    by (simp add: empty_table_def tryGrant_def release_holder_def compatible_def)
  from lock_table_holders_ok [of ?xs "''db''"] lock_table_holders_ok [of ?ys "''db''"] a b
  show ?thesis
    by simp
qed

end
